theory Spec2Isabelle
  imports Main "HOL-Library.AList"
begin

section \<open>Python strings\<close>

text \<open>
  Paths, names and URLs are Python \<open>str\<close> values, modelled as \<open>string\<close>.  Every
  pattern the program searches for (\<open>/\<close>, \<open>-\<close>, \<open>readme.md\<close>, \<open>.csv\<close>) is ASCII, and
  \<open>py_lower\<close> folds the ASCII letters only, which is all that decides whether a
  lowercased path ends in one of the two ASCII suffixes.
\<close>

definition startswith :: "string \<Rightarrow> string \<Rightarrow> bool" where
  "startswith s p = (take (length p) s = p)"

definition endswith :: "string \<Rightarrow> string \<Rightarrow> bool" where
  "endswith s x = (length x \<le> length s \<and> drop (length s - length x) s = x)"

definition lower_char :: "char \<Rightarrow> char" where
  "lower_char c =
     (case map_of (zip ''ABCDEFGHIJKLMNOPQRSTUVWXYZ'' ''abcdefghijklmnopqrstuvwxyz'') c of
        None \<Rightarrow> c
      | Some l \<Rightarrow> l)"

definition py_lower :: "string \<Rightarrow> string" where
  "py_lower s = map lower_char s"

text \<open>\<open>s.find(sub)\<close>: the lowest index at which \<open>sub\<close> occurs in \<open>s\<close>, or \<open>-1\<close>.\<close>

fun find_from :: "string \<Rightarrow> string \<Rightarrow> int \<Rightarrow> int" where
  "find_from [] sub i = (if sub = [] then i else - 1)"
| "find_from (c # cs) sub i =
     (if startswith (c # cs) sub then i else find_from cs sub (i + 1))"

definition py_find :: "string \<Rightarrow> string \<Rightarrow> int" where
  "py_find s sub = find_from s sub 0"

text \<open>
  \<open>s.replace(old, new)\<close>: every non-overlapping occurrence of \<open>old\<close>, scanning from
  the left, is replaced by \<open>new\<close>; an empty \<open>old\<close> matches before every character
  and at the end.
\<close>

function py_replace :: "string \<Rightarrow> string \<Rightarrow> string \<Rightarrow> string" where
  "py_replace s old new =
     (if old = [] then new @ concat (map (\<lambda>c. c # new) s)
      else if s = [] then []
      else if startswith s old then new @ py_replace (drop (length old) s) old new
      else hd s # py_replace (tl s) old new)"
  by pat_completeness auto
termination
  by (relation "measure (\<lambda>(s, old, new). length s)") auto

declare py_replace.simps [simp del]

section \<open>The tree snapshot\<close>

text \<open>
  The JSON object of the recursive tree listing: \<open>gittree['sha']\<close> and
  \<open>gittree['tree']\<close>, a list of nodes read through \<open>x['type']\<close> and \<open>x['path']\<close>.
\<close>

record node =
  type :: string
  path :: string

record gittree =
  sha :: string
  tree :: "node list"

definition RAW_URL :: string where
  "RAW_URL = ''https://raw.githubusercontent.com''"

definition GH_URL :: string where
  "GH_URL = ''https://www.github.com''"

definition REPO :: string where
  "REPO = ''fivethirtyeight/data''"

section \<open>Exceptions\<close>

text \<open>
  The exceptions the code can raise, all of them instances of Python's \<open>Exception\<close>:
  \<open>IndexError\<close> from indexing an empty list, \<open>RequestException\<close> from
  \<open>requests.get\<close> and \<open>raise_for_status\<close>, and \<open>OtherException\<close> for whatever the
  catalog framework raises when an entry is instantiated or reloaded.
\<close>

datatype error = IndexError | RequestException string | OtherException string

section \<open>\<open>get_projects\<close>\<close>

text \<open>One row of the returned data frame.\<close>

record project =
  Name :: string
  Description :: string
  URL :: string

text \<open>Line 38: the top-level directories.  Line 41: the keyword filter.\<close>

definition top_level_dirs :: "gittree \<Rightarrow> node list" where
  "top_level_dirs gt = [x \<leftarrow> tree gt. type x = ''tree'' \<and> py_find (path x) ''/'' < 0]"

definition project_list :: "string option \<Rightarrow> gittree \<Rightarrow> node list" where
  "project_list search_string gt =
     (case search_string of
        None \<Rightarrow> top_level_dirs gt
      | Some k \<Rightarrow> [x \<leftarrow> top_level_dirs gt. py_find (path x) k \<ge> 0])"

text \<open>Line 49: the documentation candidates of one project directory.\<close>

definition readme :: "gittree \<Rightarrow> node \<Rightarrow> node list" where
  "readme gt dataset =
     [x \<leftarrow> tree gt. type x = ''blob'' \<and> startswith (path x) (path dataset)
                      \<and> endswith (py_lower (path x)) ''readme.md'']"

text \<open>
  The loop of lines 44 to 62.  \<open>http_get\<close> stands for \<open>requests.get\<close> followed by
  \<open>raise_for_status\<close> and \<open>.text\<close>: the text of the response, or the exception
  raised.  The state of the loop is the list of URLs requested so far and the
  records appended so far; the first exception ends the loop.
\<close>

fun project_loop ::
  "(string \<Rightarrow> error + string) \<Rightarrow> gittree \<Rightarrow> node list \<Rightarrow> string list \<Rightarrow> project list
     \<Rightarrow> string list \<times> (error + project list)" where
  "project_loop http_get gt [] requested records = (requested, Inr records)"
| "project_loop http_get gt (dataset # rest) requested records =
     (let url = GH_URL @ ''/'' @ REPO @ ''/tree/'' @ sha gt @ ''/'' @ path dataset in
      case readme gt dataset of
        [] \<Rightarrow> (requested, Inl IndexError)
      | r # _ \<Rightarrow>
          (let readme_url = RAW_URL @ ''/'' @ REPO @ ''/'' @ sha gt @ ''/'' @ path r in
           case http_get readme_url of
             Inl e \<Rightarrow> (requested @ [readme_url], Inl e)
           | Inr text \<Rightarrow>
               project_loop http_get gt rest (requested @ [readme_url])
                 (records @ [\<lparr>Name = path dataset, Description = text, URL = url\<rparr>])))"

text \<open>
  \<open>fetch_tree\<close> stands for the three requests of lines 19 to 34, made when no
  snapshot is passed: the snapshot they produce, or the exception raised.  The
  result pairs the documentation URLs requested with the rows of the data frame,
  or with the exception that left the function.  The parameter \<open>render\<close> is
  never read and is left out.
\<close>

definition get_projects ::
  "(error + gittree) \<Rightarrow> (string \<Rightarrow> error + string) \<Rightarrow> string option \<Rightarrow> gittree option
     \<Rightarrow> string list \<times> (error + project list)" where
  "get_projects fetch_tree http_get search_string gittree =
     (case (case gittree of None \<Rightarrow> fetch_tree | Some gt \<Rightarrow> Inr gt) of
        Inl e \<Rightarrow> ([], Inl e)
      | Inr gt \<Rightarrow> project_loop http_get gt (project_list search_string gt) [] [])"

section \<open>\<open>Five38SubCatalog\<close>\<close>

text \<open>
  The arguments of one \<open>LocalCatalogEntry\<close>: its name, description and driver, and
  the \<open>urlpath\<close> of its argument bag.  The \<open>catalog=self\<close> back reference is left
  out.
\<close>

record entry =
  entry_name :: string
  entry_description :: string
  entry_driver :: string
  entry_urlpath :: string

text \<open>Line 194, line 197 and the entry of lines 198 to 206.\<close>

definition output_list :: "string \<Rightarrow> gittree \<Rightarrow> node list" where
  "output_list self_name gt =
     [x \<leftarrow> tree gt. type x = ''blob'' \<and> startswith (path x) (self_name @ ''/'')
                      \<and> endswith (py_lower (path x)) ''.csv'']"

definition dataset_name :: "string \<Rightarrow> node \<Rightarrow> string" where
  "dataset_name self_name a_csv =
     py_replace (py_replace (path a_csv) (self_name @ ''/'') []) ''-'' ''_''"

definition csv_entry :: "string \<Rightarrow> gittree \<Rightarrow> node \<Rightarrow> entry" where
  "csv_entry self_name gt a_csv =
     \<lparr>entry_name = dataset_name self_name a_csv,
      entry_description = ''data file for '' @ self_name,
      entry_driver = ''csv'',
      entry_urlpath = RAW_URL @ ''/'' @ REPO @ ''/'' @ sha gt @ ''/'' @ path a_csv\<rparr>"

text \<open>
  The loop of lines 196 to 206 over the dict \<open>self._entries\<close>, an association
  list in insertion order: assigning to a key that is present replaces its value
  in place, assigning to a new key appends it.
\<close>

fun load_loop ::
  "string \<Rightarrow> gittree \<Rightarrow> node list \<Rightarrow> (string \<times> entry) list \<Rightarrow> (string \<times> entry) list" where
  "load_loop self_name gt [] entries = entries"
| "load_loop self_name gt (a_csv # rest) entries =
     load_loop self_name gt rest
       (AList.update (dataset_name self_name a_csv) (csv_entry self_name gt a_csv) entries)"

text \<open>
  \<open>_load\<close> of the sub-catalog, as a function of \<open>self.name\<close> and \<open>self._tree\<close>:
  the entries it leaves in \<open>self._entries\<close>, or the exception raised by the three
  requests made when the instance holds no snapshot.
\<close>

definition SubCatalog_load ::
  "(error + gittree) \<Rightarrow> string \<Rightarrow> gittree option \<Rightarrow> error + (string \<times> entry) list" where
  "SubCatalog_load fetch_tree self_name self_tree =
     (case (case self_tree of None \<Rightarrow> fetch_tree | Some gt \<Rightarrow> Inr gt) of
        Inl e \<Rightarrow> Inl e
      | Inr gt \<Rightarrow> Inr (load_loop self_name gt (output_list self_name gt) []))"

text \<open>
  The constructor, lines 161 to 163.  The keyword arguments are those the root
  catalog passes on (\<open>name\<close>, \<open>description\<close>, \<open>ttl\<close>), each absent when the
  constructor is called without it.  The constructor of the base class is not
  part of the program's source: it keeps the keywords as attributes, \<open>None\<close> for
  an absent one, and loads the catalog at once by calling \<open>_load\<close>.  So
  constructing an instance without a snapshot makes the three requests of lines
  173 to 188, raises what they raise, and otherwise leaves the fetched snapshot
  in \<open>self._tree\<close> and the entries found for \<open>self.name\<close> in \<open>self._entries\<close>.
  \<open>name_text\<close> is what the f-string of line 194 renders for \<open>self.name\<close>: the
  name keyword, or, for an instance built without one, the text \<open>unnamed\<close> of
  what the base class leaves in that attribute (\<open>None\<close> is rendered \<open>"None"\<close>).
\<close>

record kwargs =
  kw_name :: "string option"
  kw_description :: "string option"
  kw_ttl :: "int option"

record Five38SubCatalog =
  sub_tree :: "gittree option"
  sub_kwargs :: kwargs
  sub_entries :: "(string \<times> entry) list"

definition no_kwargs :: kwargs where
  "no_kwargs = \<lparr>kw_name = None, kw_description = None, kw_ttl = None\<rparr>"

definition name_text :: "string \<Rightarrow> string option \<Rightarrow> string" where
  "name_text unnamed n = (case n of None \<Rightarrow> unnamed | Some s \<Rightarrow> s)"

definition SubCatalog_init ::
  "string \<Rightarrow> (error + gittree) \<Rightarrow> gittree option \<Rightarrow> kwargs \<Rightarrow> error + Five38SubCatalog" where
  "SubCatalog_init unnamed fetch_tree tree_arg kw =
     (case (case tree_arg of None \<Rightarrow> fetch_tree | Some gt \<Rightarrow> Inr gt) of
        Inl e \<Rightarrow> Inl e
      | Inr gt \<Rightarrow>
          Inr \<lparr>sub_tree = Some gt, sub_kwargs = kw,
               sub_entries =
                 load_loop (name_text unnamed (kw_name kw)) gt
                   (output_list (name_text unnamed (kw_name kw)) gt) []\<rparr>)"

text \<open>
  Lines 165 and 166.  The result pairs the receiver as the call leaves it with
  the outcome of \<open>Five38SubCatalog()\<close>: the instance returned, or the exception
  raised by the requests its construction makes.
\<close>

definition SubCatalog_search ::
  "string \<Rightarrow> (error + gittree) \<Rightarrow> Five38SubCatalog \<Rightarrow> string option
     \<Rightarrow> Five38SubCatalog \<times> (error + Five38SubCatalog)" where
  "SubCatalog_search unnamed fetch_tree self text =
     (self, SubCatalog_init unnamed fetch_tree None no_kwargs)"

text \<open>
  What the specification calls the normalised file name: the path without its
  leading \<open><project_name>/\<close>, hyphens replaced by underscores.
\<close>

definition stripped_name :: "string \<Rightarrow> string \<Rightarrow> string" where
  "stripped_name project p =
     map (\<lambda>c. if c = CHR ''-'' then CHR ''_'' else c) (drop (length project + 1) p)"

section \<open>\<open>Five38Catalog.walk\<close>\<close>

text \<open>
  Catalog instances live in a store, addressed by number, so that an entry can
  lead back to a catalog that contains it.  Of an entry the walker reads
  \<open>item.container\<close> and, for a container \<open>catalog\<close>, calls \<open>item()\<close>: the address
  of the catalog instance it creates, or the exception it raises.  Of a catalog
  it reads \<open>_entries\<close>, a dict in insertion order, after the \<open>reload_on_change\<close>
  wrapper has run: \<open>reload\<close> is the exception that wrapper raises, if any, and
  \<open>entries\<close> the dict it leaves.
\<close>

datatype item = Item (container: string) (call: "error + nat")

record catalog =
  reload :: "error option"
  entries :: "(string \<times> item) list"

text \<open>\<open>".".join(names)\<close>\<close>

fun join_dot :: "string list \<Rightarrow> string" where
  "join_dot [] = []"
| "join_dot [x] = x"
| "join_dot (x # y # ys) = x @ ''.'' @ join_dot (y # ys)"

text \<open>
  Lines 143 to 155.  \<open>walk_entries\<close> is the \<open>for\<close> loop, threading the dict \<open>out\<close>
  that every level of the recursion writes to.  A nested walk can raise only from
  its reload wrapper, before it has written anything, so a descent that fails
  leaves \<open>out\<close> as it was; the \<open>except Exception\<close> clause then goes on to record the
  entry itself.  The message it prints is not part of the model.  \<open>sofar\<close> and
  \<open>prefix\<close> are \<open>None\<close> when the caller leaves them out; \<open>depth\<close>, whose
  default is 3, is always passed.  The recursion is on \<open>depth\<close> alone: the store
  may hold cycles.
\<close>

function walk ::
    "(nat \<Rightarrow> catalog) \<Rightarrow> nat \<Rightarrow> (string \<times> item) list option \<Rightarrow> string list option \<Rightarrow> int
       \<Rightarrow> error + (string \<times> item) list"
  and walk_entries ::
    "(nat \<Rightarrow> catalog) \<Rightarrow> (string \<times> item) list \<Rightarrow> (string \<times> item) list \<Rightarrow> string list \<Rightarrow> int
       \<Rightarrow> (string \<times> item) list" where
  "walk store self sofar prefix depth =
     (case reload (store self) of
        Some e \<Rightarrow> Inl e
      | None \<Rightarrow>
          Inr (walk_entries store (entries (store self))
                 (case sofar of None \<Rightarrow> [] | Some d \<Rightarrow> d)
                 (case prefix of None \<Rightarrow> [] | Some p \<Rightarrow> p) depth))"
| "walk_entries store [] out prefix depth = out"
| "walk_entries store ((name, item) # rest) out prefix depth =
     (let out' =
        (if container item = ''catalog'' \<and> depth > 1 then
           (case call item of
              Inl e \<Rightarrow> out
            | Inr sub \<Rightarrow>
                (case walk store sub (Some out) (Some (prefix @ [name])) (depth - 1) of
                   Inl e \<Rightarrow> out
                 | Inr out'' \<Rightarrow> out''))
         else out)
      in walk_entries store rest (AList.update (join_dot (prefix @ [name])) item out') prefix depth)"
  by pat_completeness auto
termination
  by (relation "measures
        [\<lambda>a. case a of Inl (store, self, sofar, prefix, depth) \<Rightarrow> nat depth
                     | Inr (store, items, out, prefix, depth) \<Rightarrow> nat depth,
         \<lambda>a. case a of Inl (store, self, sofar, prefix, depth) \<Rightarrow> Suc (length (entries (store self)))
                     | Inr (store, items, out, prefix, depth) \<Rightarrow> length items]")
     auto

text \<open>
  The entries a walk can come to: \<open>reach store items names item\<close> holds when
  following \<open>names\<close> from the dict \<open>items\<close>, through entries that are catalogs,
  instantiate and reload, ends at \<open>item\<close>.
\<close>

inductive reach :: "(nat \<Rightarrow> catalog) \<Rightarrow> (string \<times> item) list \<Rightarrow> string list \<Rightarrow> item \<Rightarrow> bool"
  for store :: "nat \<Rightarrow> catalog" where
  here: "(name, item) \<in> set items \<Longrightarrow> reach store items [name] item"
| descend: "(name, item) \<in> set items \<Longrightarrow> container item = ''catalog'' \<Longrightarrow> call item = Inr sub
     \<Longrightarrow> reload (store sub) = None \<Longrightarrow> reach store (entries (store sub)) names item'
     \<Longrightarrow> reach store items (name # names) item'"

section \<open>Example inputs\<close>

text \<open>A network that answers every request with the URL requested, and one that is down.\<close>

definition echo :: "string \<Rightarrow> error + string" where
  "echo u = Inr u"

definition offline :: "error + gittree" where
  "offline = Inl (RequestException ''offline'')"

definition snapshot_no_readme :: gittree where
  "snapshot_no_readme = \<lparr>sha = ''abc123'', tree =
     [\<lparr>type = ''tree'', path = ''elections''\<rparr>,
      \<lparr>type = ''blob'', path = ''elections/results.csv''\<rparr>]\<rparr>"

definition snapshot_prefix_clash :: gittree where
  "snapshot_prefix_clash = \<lparr>sha = ''abc123'', tree =
     [\<lparr>type = ''tree'', path = ''nfl-elo-game''\<rparr>,
      \<lparr>type = ''blob'', path = ''nfl-elo-game/README.md''\<rparr>,
      \<lparr>type = ''tree'', path = ''nfl-elo''\<rparr>,
      \<lparr>type = ''blob'', path = ''nfl-elo/README.md''\<rparr>]\<rparr>"

definition snapshot_two :: gittree where
  "snapshot_two = \<lparr>sha = ''abc123'', tree =
     [\<lparr>type = ''tree'', path = ''elections''\<rparr>,
      \<lparr>type = ''blob'', path = ''elections/README.md''\<rparr>,
      \<lparr>type = ''blob'', path = ''elections/results.csv''\<rparr>,
      \<lparr>type = ''tree'', path = ''elections/raw''\<rparr>,
      \<lparr>type = ''tree'', path = ''polls''\<rparr>,
      \<lparr>type = ''blob'', path = ''polls/readme.md''\<rparr>]\<rparr>"

definition elections_row :: project where
  "elections_row = \<lparr>Name = ''elections'',
     Description = ''https://raw.githubusercontent.com/fivethirtyeight/data/abc123/elections/README.md'',
     URL = ''https://www.github.com/fivethirtyeight/data/tree/abc123/elections''\<rparr>"

definition polls_row :: project where
  "polls_row = \<lparr>Name = ''polls'',
     Description = ''https://raw.githubusercontent.com/fivethirtyeight/data/abc123/polls/readme.md'',
     URL = ''https://www.github.com/fivethirtyeight/data/tree/abc123/polls''\<rparr>"

definition snapshot_abc :: gittree where
  "snapshot_abc = \<lparr>sha = ''abc123'', tree =
     [\<lparr>type = ''tree'', path = ''abc''\<rparr>,
      \<lparr>type = ''blob'', path = ''abc/README.md''\<rparr>,
      \<lparr>type = ''blob'', path = ''abc/data-set.csv''\<rparr>,
      \<lparr>type = ''blob'', path = ''abcd/other.csv''\<rparr>]\<rparr>"

definition snapshot_csvs :: gittree where
  "snapshot_csvs = \<lparr>sha = ''abc123'', tree =
     [\<lparr>type = ''tree'', path = ''abc''\<rparr>,
      \<lparr>type = ''blob'', path = ''abc/data-set.csv''\<rparr>,
      \<lparr>type = ''tree'', path = ''abc/raw''\<rparr>,
      \<lparr>type = ''blob'', path = ''abc/raw/More-Data.CSV''\<rparr>,
      \<lparr>type = ''blob'', path = ''abc/notes.txt''\<rparr>]\<rparr>"

definition snapshot_collide :: gittree where
  "snapshot_collide = \<lparr>sha = ''abc123'', tree =
     [\<lparr>type = ''blob'', path = ''p/a-b.csv''\<rparr>,
      \<lparr>type = ''blob'', path = ''p/a_b.csv''\<rparr>,
      \<lparr>type = ''blob'', path = ''p/p/c.csv''\<rparr>]\<rparr>"

definition data_set_entry :: entry where
  "data_set_entry = \<lparr>entry_name = ''data_set.csv'', entry_description = ''data file for abc'',
     entry_driver = ''csv'',
     entry_urlpath = ''https://raw.githubusercontent.com/fivethirtyeight/data/abc123/abc/data-set.csv''\<rparr>"

definition elections_catalog :: Five38SubCatalog where
  "elections_catalog =
     \<lparr>sub_tree = Some snapshot_two,
      sub_kwargs = \<lparr>kw_name = Some ''elections'', kw_description = Some ''about elections'',
                     kw_ttl = Some 99999999999\<rparr>,
      sub_entries =
        [(''results.csv'',
          \<lparr>entry_name = ''results.csv'', entry_description = ''data file for elections'',
           entry_driver = ''csv'',
           entry_urlpath =
             ''https://raw.githubusercontent.com/fivethirtyeight/data/abc123/elections/results.csv''\<rparr>)]\<rparr>"

definition data_item :: item where
  "data_item = Item ''dataframe'' (Inl (OtherException ''not a catalog''))"

definition failing_store :: "nat \<Rightarrow> catalog" where
  "failing_store i =
     (if i = 0 then
        \<lparr>reload = None,
         entries = [(''good'', Item ''catalog'' (Inr 1)),
                    (''bad'', Item ''catalog'' (Inl (OtherException ''cannot instantiate''))),
                    (''stale'', Item ''catalog'' (Inr 2)),
                    (''leaf'', data_item)]\<rparr>
      else if i = 1 then \<lparr>reload = None, entries = [(''x'', data_item)]\<rparr>
      else \<lparr>reload = Some (RequestException ''upstream''), entries = [(''y'', data_item)]\<rparr>)"

definition cyclic_store :: "nat \<Rightarrow> catalog" where
  "cyclic_store i = \<lparr>reload = None, entries = [(''again'', Item ''catalog'' (Inr i))]\<rparr>"

definition five_levels :: "nat \<Rightarrow> catalog" where
  "five_levels i =
     (if i < 4 then
        \<lparr>reload = None, entries = [(''sub'', Item ''catalog'' (Inr (i + 1))), (''data'', data_item)]\<rparr>
      else \<lparr>reload = None, entries = [(''data'', data_item)]\<rparr>)"

section \<open>Facts about the string operations\<close>

lemma find_from_empty: "0 \<le> i \<Longrightarrow> 0 \<le> find_from s [] i"
  by (cases s) (auto simp: startswith_def)

lemma py_find_empty: "py_find s [] \<ge> 0"
  by (simp add: py_find_def find_from_empty)

lemma project_list_empty_keyword: "project_list (Some []) gt = project_list None gt"
  by (simp add: project_list_def py_find_empty)

lemma find_from_ge: "0 \<le> i \<Longrightarrow> (0 \<le> find_from s sub i) = (\<exists>ps ss. s = ps @ sub @ ss)"
proof (induction s arbitrary: i)
  case Nil
  then show ?case by auto
next
  case (Cons c cs)
  show ?case
  proof (cases "startswith (c # cs) sub")
    case True
    then have "c # cs = [] @ sub @ drop (length sub) (c # cs)"
      unfolding startswith_def by (metis append_Nil append_take_drop_id)
    then have "\<exists>ps ss. c # cs = ps @ sub @ ss" by blast
    with True Cons.prems show ?thesis by simp
  next
    case False
    have "(\<exists>ps ss. c # cs = ps @ sub @ ss) = (\<exists>ps ss. cs = ps @ sub @ ss)"
    proof
      assume "\<exists>ps ss. c # cs = ps @ sub @ ss"
      then obtain ps ss where e: "c # cs = ps @ sub @ ss" by blast
      show "\<exists>ps ss. cs = ps @ sub @ ss"
      proof (cases ps)
        case Nil
        with e have "startswith (c # cs) sub" by (simp add: startswith_def)
        with False show ?thesis by simp
      next
        case (Cons p ps')
        with e have "cs = ps' @ sub @ ss" by simp
        then show ?thesis by blast
      qed
    next
      assume "\<exists>ps ss. cs = ps @ sub @ ss"
      then obtain ps ss where "cs = ps @ sub @ ss" by blast
      then have "c # cs = (c # ps) @ sub @ ss" by simp
      then show "\<exists>ps ss. c # cs = ps @ sub @ ss" by blast
    qed
    with False Cons.IH [of "i + 1"] Cons.prems show ?thesis by simp
  qed
qed

text \<open>\<open>s.find(sub) >= 0\<close> is containment of \<open>sub\<close> in \<open>s\<close>.\<close>

lemma py_find_contains: "(py_find s sub \<ge> 0) = (\<exists>ps ss. s = ps @ sub @ ss)"
  by (simp add: py_find_def find_from_ge)

lemma py_find_slash: "(py_find s ''/'' < 0) = (CHR ''/'' \<notin> set s)"
proof -
  have "(\<exists>ps ss. s = ps @ ''/'' @ ss) = (CHR ''/'' \<in> set s)"
    by (auto simp: in_set_conv_decomp)
  with py_find_contains [of s "''/''"] show ?thesis by auto
qed

lemma startswith_iff: "startswith s p = (\<exists>r. s = p @ r)"
proof
  assume "startswith s p"
  then have "s = p @ drop (length p) s"
    unfolding startswith_def by (metis append_take_drop_id)
  then show "\<exists>r. s = p @ r" ..
next
  assume "\<exists>r. s = p @ r"
  then show "startswith s p" by (auto simp: startswith_def)
qed

lemma endswith_iff: "endswith s x = (\<exists>p. s = p @ x)"
proof
  assume "endswith s x"
  then have "s = take (length s - length x) s @ x"
    unfolding endswith_def by (metis append_take_drop_id)
  then show "\<exists>p. s = p @ x" ..
next
  assume "\<exists>p. s = p @ x"
  then show "endswith s x" by (auto simp: endswith_def)
qed

section \<open>Facts about the loop of \<open>get_projects\<close>\<close>

lemma project_loop_names:
  "snd (project_loop h gt xs req recs) = Inr rs \<Longrightarrow> map Name rs = map Name recs @ map path xs"
  by (induction xs arbitrary: req recs)
     (auto simp: Let_def split: list.splits sum.splits)

lemma project_loop_filter:
  "snd (project_loop h gt xs req recs) = Inr rs
     \<Longrightarrow> \<exists>rs2. snd (project_loop h gt (filter P xs) req2 recs2) = Inr rs2"
  by (induction xs arbitrary: req recs req2 recs2)
     (auto simp: Let_def split: list.splits sum.splits)

lemma project_loop_raises:
  "c \<in> set xs \<Longrightarrow> readme gt c = []
     \<Longrightarrow> \<exists>e. snd (project_loop h gt xs req recs) = Inl e \<and> (e = IndexError \<or> (\<exists>u. h u = Inl e))"
proof (induction xs arbitrary: req recs)
  case Nil
  then show ?case by simp
next
  case (Cons x xs)
  show ?case
  proof (cases "readme gt x")
    case Nil
    then show ?thesis by simp
  next
    case (Cons r rest)
    with Cons.prems have "c \<in> set xs" by auto
    from Cons.IH [OF this Cons.prems(2)] Cons show ?thesis
      by (auto simp: Let_def split: sum.splits)
  qed
qed

lemma project_list_Some_names:
  "x \<in> set (project_list (Some k) gt) \<Longrightarrow> \<exists>ps ss. path x = ps @ k @ ss"
  by (simp add: project_list_def py_find_contains)

lemma project_list_Some_filter:
  "project_list (Some k) gt = filter (\<lambda>x. py_find (path x) k \<ge> 0) (project_list None gt)"
  by (simp add: project_list_def)

section \<open>Facts about replacing and about the loop of \<open>_load\<close>\<close>

lemma py_replace_char: "py_replace s [a] [b] = map (\<lambda>c. if c = a then b else c) s"
proof (induction s)
  case Nil
  then show ?case by (simp add: py_replace.simps)
next
  case (Cons c cs)
  then show ?case
    by (subst py_replace.simps) (simp add: startswith_def)
qed

lemma py_replace_prefix:
  "old \<noteq> [] \<Longrightarrow> py_replace (old @ r) old new = new @ py_replace r old new"
  by (subst py_replace.simps) (simp add: startswith_def)

lemma py_replace_absent:
  "old \<noteq> [] \<Longrightarrow> \<not> (\<exists>ps ss. s = ps @ old @ ss) \<Longrightarrow> py_replace s old new = s"
proof (induction s)
  case Nil
  then show ?case by (simp add: py_replace.simps)
next
  case (Cons c cs)
  have n: "\<not> startswith (c # cs) old"
  proof
    assume "startswith (c # cs) old"
    then obtain r where "c # cs = old @ r" unfolding startswith_iff ..
    then have "c # cs = [] @ old @ r" by simp
    with Cons.prems(2) show False by blast
  qed
  have "\<not> (\<exists>ps ss. cs = ps @ old @ ss)"
  proof
    assume "\<exists>ps ss. cs = ps @ old @ ss"
    then obtain ps ss where "cs = ps @ old @ ss" by blast
    then have "c # cs = (c # ps) @ old @ ss" by simp
    with Cons.prems(2) show False by blast
  qed
  with Cons have "py_replace cs old new = cs" by simp
  with n Cons.prems(1) show ?case by (subst py_replace.simps) simp
qed

lemma dataset_name_stripped:
  assumes "startswith (path x) (n @ ''/'')"
    and "\<not> (\<exists>ps ss. drop (length n + 1) (path x) = ps @ (n @ ''/'') @ ss)"
  shows "dataset_name n x = stripped_name n (path x)"
proof -
  from assms(1) obtain r where r: "path x = (n @ ''/'') @ r" unfolding startswith_iff ..
  then have d: "drop (length n + 1) (path x) = r" by simp
  have "py_replace (path x) (n @ ''/'') [] = py_replace r (n @ ''/'') []"
    unfolding r by (subst py_replace_prefix) simp_all
  also have "\<dots> = r" using assms(2) d by (intro py_replace_absent) simp_all
  finally have "py_replace (path x) (n @ ''/'') [] = drop (length n + 1) (path x)"
    using d by simp
  then show ?thesis by (simp add: dataset_name_def stripped_name_def py_replace_char)
qed

lemma set_update: "(k', v') \<in> set (AList.update k v al) \<Longrightarrow> (k', v') = (k, v) \<or> (k', v') \<in> set al"
  by (induction al) (auto split: if_splits)

lemma update_fresh: "k \<notin> fst ` set al \<Longrightarrow> AList.update k v al = al @ [(k, v)]"
  by (induction al) auto

lemma load_loop_keys:
  "fst ` set (load_loop n gt xs es) = fst ` set es \<union> dataset_name n ` set xs"
  by (induction xs arbitrary: es) (auto simp: dom_update)

lemma load_loop_distinct:
  "distinct (map fst es) \<Longrightarrow> distinct (map fst (load_loop n gt xs es))"
  by (induction xs arbitrary: es) (auto simp: distinct_update)

lemma load_loop_mem:
  "(k, e) \<in> set (load_loop n gt xs es)
     \<Longrightarrow> (k, e) \<in> set es \<or> (\<exists>x \<in> set xs. k = dataset_name n x \<and> e = csv_entry n gt x)"
proof (induction xs arbitrary: es)
  case Nil
  then show ?case by simp
next
  case (Cons x xs)
  from Cons.prems have "(k, e) \<in> set (load_loop n gt xs (AList.update (dataset_name n x) (csv_entry n gt x) es))"
    by simp
  from Cons.IH [OF this] show ?case using set_update by fastforce
qed

lemma load_loop_distinct_names:
  "distinct (map (dataset_name n) xs) \<Longrightarrow> dataset_name n ` set xs \<inter> fst ` set es = {}
     \<Longrightarrow> load_loop n gt xs es = es @ map (\<lambda>x. (dataset_name n x, csv_entry n gt x)) xs"
proof (induction xs arbitrary: es)
  case Nil
  then show ?case by simp
next
  case (Cons x xs)
  from Cons.prems have f: "dataset_name n x \<notin> fst ` set es" by auto
  let ?es = "es @ [(dataset_name n x, csv_entry n gt x)]"
  from Cons.prems have "dataset_name n ` set xs \<inter> fst ` set ?es = {}" by auto
  with Cons.IH [of ?es] Cons.prems(1) f show ?case by (simp add: update_fresh)
qed


lemma output_list_iff:
  "x \<in> set (output_list n gt) \<longleftrightarrow>
     x \<in> set (tree gt) \<and> type x = ''blob'' \<and> (\<exists>r. path x = n @ ''/'' @ r)
       \<and> (\<exists>p. py_lower (path x) = p @ ''.csv'')"
  by (auto simp: output_list_def startswith_iff endswith_iff)

section \<open>Facts about the walk\<close>

lemma walk_entries_Cons:
  "walk_entries store ((name, item) # rest) out prefix depth =
     walk_entries store rest
       (AList.update (join_dot (prefix @ [name])) item
          (if container item = ''catalog'' \<and> depth > 1 then
             (case call item of
                Inl e \<Rightarrow> out
              | Inr sub \<Rightarrow>
                  (case walk store sub (Some out) (Some (prefix @ [name])) (depth - 1) of
                     Inl e \<Rightarrow> out
                   | Inr out'' \<Rightarrow> out''))
           else out))
       prefix depth"
  by (simp add: Let_def)



lemma reach_Cons: "reach store items names it \<Longrightarrow> reach store (x # items) names it"
  by (induction rule: reach.induct) (auto intro: reach.intros)

lemma reach_nonempty: "reach store items names it \<Longrightarrow> names \<noteq> []"
  by (induction rule: reach.induct) auto


lemma walk_provenance:
  "walk store self sofar prefix depth = Inr r \<Longrightarrow> (k, it) \<in> set r
     \<Longrightarrow> (k, it) \<in> set (case sofar of None \<Rightarrow> [] | Some d \<Rightarrow> d)
         \<or> (\<exists>names. k = join_dot ((case prefix of None \<Rightarrow> [] | Some p \<Rightarrow> p) @ names)
               \<and> reach store (entries (store self)) names it
               \<and> int (length names) \<le> max 1 depth)"
  "(k, it) \<in> set (walk_entries store items out pfx depth)
     \<Longrightarrow> (k, it) \<in> set out
         \<or> (\<exists>names. k = join_dot (pfx @ names) \<and> reach store items names it
               \<and> int (length names) \<le> max 1 depth)"
proof (induct store self sofar prefix depth and store items out pfx depth
    arbitrary: r rule: walk_walk_entries.induct)
  case (1 store self sofar prefix depth)
  then show ?case by (auto split: option.splits)
next
  case (2 store out prefix depth)
  then show ?case by simp
next
  case (3 store name item rest out prefix depth)
  let ?d = "if container item = ''catalog'' \<and> depth > 1 then
             (case call item of
                Inl e \<Rightarrow> out
              | Inr sub \<Rightarrow>
                  (case walk store sub (Some out) (Some (prefix @ [name])) (depth - 1) of
                     Inl e \<Rightarrow> out
                   | Inr out'' \<Rightarrow> out''))
           else out"
  let ?items = "(name, item) # rest"
  let ?new = "\<lambda>k it. \<exists>names. k = join_dot (prefix @ names) \<and> reach store ?items names it
               \<and> int (length names) \<le> max 1 depth"
  have d: "(k, it) \<in> set out \<or> ?new k it" if m: "(k, it) \<in> set ?d"
  proof (cases "container item = ''catalog'' \<and> depth > 1")
    case False
    with m show ?thesis by simp
  next
    case True
    show ?thesis
    proof (cases "call item")
      case (Inl e)
      with True m show ?thesis by simp
    next
      case (Inr sub)
      show ?thesis
      proof (cases "walk store sub (Some out) (Some (prefix @ [name])) (depth - 1)")
        case (Inl e)
        with True \<open>call item = Inr sub\<close> m show ?thesis by simp
      next
        case r: (Inr r)
        with True Inr m have "(k, it) \<in> set r" by simp
        from "3.hyps"(1) [OF True Inr r this]
        show ?thesis
        proof
          assume "(k, it) \<in> set (case Some out of None \<Rightarrow> [] | Some d \<Rightarrow> d)"
          then show ?thesis by simp
        next
          assume "\<exists>names. k = join_dot ((case Some (prefix @ [name]) of None \<Rightarrow> [] | Some p \<Rightarrow> p) @ names)
               \<and> reach store (entries (store sub)) names it
               \<and> int (length names) \<le> max 1 (depth - 1)"
          then obtain names where n: "k = join_dot (prefix @ name # names)"
            "reach store (entries (store sub)) names it" "int (length names) \<le> max 1 (depth - 1)"
            by auto
          from r have rl: "reload (store sub) = None"
            by (auto split: option.splits)
          have "reach store ?items (name # names) it"
            using True Inr rl n(2) by (intro reach.descend [where item = item and sub = sub]) simp_all
          moreover from n(3) True have "int (length (name # names)) \<le> max 1 depth" by simp
          ultimately show ?thesis using n(1) by blast
        qed
      qed
    qed
  qed
  from "3.prems" have "(k, it) \<in> set (walk_entries store rest
      (AList.update (join_dot (prefix @ [name])) item ?d) prefix depth)"
    unfolding walk_entries_Cons .
  from "3.hyps"(2) [OF refl this]
  show ?case
  proof
    assume "(k, it) \<in> set (AList.update (join_dot (prefix @ [name])) item ?d)"
    from set_update [OF this] show ?thesis
    proof
      assume "(k, it) = (join_dot (prefix @ [name]), item)"
      then have "k = join_dot (prefix @ [name])" "reach store ?items [name] it"
        by (auto intro: reach.here)
      then show ?thesis by force
    next
      assume "(k, it) \<in> set ?d"
      from d [OF this] show ?thesis .
    qed
  next
    assume "\<exists>names. k = join_dot (prefix @ names) \<and> reach store rest names it
               \<and> int (length names) \<le> max 1 depth"
    then show ?thesis using reach_Cons by blast
  qed
qed







text \<open>A descent that fails is handled like an entry that is no catalog.\<close>

lemma walk_entries_failed_descent:
  assumes "call item = Inl e \<or> (\<exists>sub e. call item = Inr sub \<and> reload (store sub) = Some e)"
  shows "walk_entries store ((name, item) # rest) out pfx depth
           = walk_entries store rest (AList.update (join_dot (pfx @ [name])) item out) pfx depth"
  using assms by (auto simp: Let_def)

section \<open>Evaluating the examples\<close>

lemmas string_eval = startswith_def endswith_def py_lower_def lower_char_def py_find_def
lemmas project_eval = get_projects_def project_list_def top_level_dirs_def readme_def
  RAW_URL_def GH_URL_def REPO_def Let_def

lemma snapshot_two_all:
  "snd (get_projects offline echo None (Some snapshot_two)) = Inr [elections_row, polls_row]"
  by (simp add: snapshot_two_def elections_row_def polls_row_def echo_def project_eval string_eval)

lemma snapshot_two_keyword:
  "snd (get_projects offline echo (Some ''oll'') (Some snapshot_two)) = Inr [polls_row]"
  by (simp add: snapshot_two_def polls_row_def echo_def project_eval string_eval)

lemmas sub_eval = SubCatalog_load_def output_list_def dataset_name_def csv_entry_def
  RAW_URL_def REPO_def

lemma replace_eval:
  "py_replace ''abc/data-set.csv'' ''abc/'' [] = ''data-set.csv''"
  "py_replace ''data-set.csv'' ''-'' ''_'' = ''data_set.csv''"
  "py_replace ''p/a-b.csv'' ''p/'' [] = ''a-b.csv''"
  "py_replace ''p/a_b.csv'' ''p/'' [] = ''a_b.csv''"
  "py_replace ''p/p/c.csv'' ''p/'' [] = ''c.csv''"
  "py_replace ''a-b.csv'' ''-'' ''_'' = ''a_b.csv''"
  "py_replace ''a_b.csv'' ''-'' ''_'' = ''a_b.csv''"
  "py_replace ''c.csv'' ''-'' ''_'' = ''c.csv''"
  by (simp_all add: py_replace.simps startswith_def)

lemma walk_failing_store:
  "walk failing_store 0 None None 3
     = Inr [(''good.x'', data_item),
            (''good'', Item ''catalog'' (Inr 1)),
            (''bad'', Item ''catalog'' (Inl (OtherException ''cannot instantiate''))),
            (''stale'', Item ''catalog'' (Inr 2)),
            (''leaf'', data_item)]"
  by (simp add: failing_store_def data_item_def)

lemma walk_cyclic_store:
  "walk cyclic_store 0 None None 3
     = Inr [(''again.again.again'', Item ''catalog'' (Inr 0)),
            (''again.again'', Item ''catalog'' (Inr 0)),
            (''again'', Item ''catalog'' (Inr 0))]"
  by (simp add: cyclic_store_def)

lemma walk_five_levels:
  "walk five_levels 0 None None 2
     = Inr [(''sub.sub'', Item ''catalog'' (Inr 2)),
            (''sub.data'', data_item),
            (''sub'', Item ''catalog'' (Inr 1)),
            (''data'', data_item)]"
  by (simp add: five_levels_def data_item_def)

section \<open>The keyword filter\<close>

text \<open>
  C5: an empty keyword keeps every candidate, as an absent one does.  For
  \<open>search_string = ""\<close> and for \<open>search_string = None\<close> alike the list the
  loop runs over is the whole list of top-level directories, so \<open>get_projects\<close>
  makes the same requests and has the same outcome in both calls; and when a
  call returns, its rows are those of all the top-level directories, in
  snapshot order.
\<close>

theorem get_projects_empty_keyword:
  "get_projects fetch_tree http_get (Some []) gittree
     = get_projects fetch_tree http_get None gittree
   \<and> project_list (Some []) gt = top_level_dirs gt
   \<and> project_list None gt = top_level_dirs gt
   \<and> get_projects fetch_tree http_get (Some []) (Some gt)
       = project_loop http_get gt (top_level_dirs gt) [] []
   \<and> get_projects fetch_tree http_get None (Some gt)
       = project_loop http_get gt (top_level_dirs gt) [] []
   \<and> (\<forall>rs. snd (get_projects fetch_tree http_get (Some []) (Some gt)) = Inr rs
          \<longrightarrow> map Name rs = map path (top_level_dirs gt))
   \<and> (\<forall>rs. snd (get_projects fetch_tree http_get None (Some gt)) = Inr rs
          \<longrightarrow> map Name rs = map path (top_level_dirs gt))"
proof -
  have 1: "get_projects fetch_tree http_get (Some []) gittree
             = get_projects fetch_tree http_get None gittree"
    unfolding get_projects_def project_list_empty_keyword by (rule refl)
  have 3: "project_list None gt = top_level_dirs gt"
    by (simp add: project_list_def)
  have 2: "project_list (Some []) gt = top_level_dirs gt"
    unfolding project_list_empty_keyword by (rule 3)
  have 4: "get_projects fetch_tree http_get (Some []) (Some gt)
             = project_loop http_get gt (top_level_dirs gt) [] []"
    by (simp add: get_projects_def 2)
  have 5: "get_projects fetch_tree http_get None (Some gt)
             = project_loop http_get gt (top_level_dirs gt) [] []"
    by (simp add: get_projects_def 3)
  have 6: "\<forall>rs. snd (get_projects fetch_tree http_get (Some []) (Some gt)) = Inr rs
          \<longrightarrow> map Name rs = map path (top_level_dirs gt)"
    unfolding 4 using project_loop_names by fastforce
  have 7: "\<forall>rs. snd (get_projects fetch_tree http_get None (Some gt)) = Inr rs
          \<longrightarrow> map Name rs = map path (top_level_dirs gt)"
    unfolding 5 using project_loop_names by fastforce
  from 1 2 3 4 5 6 7 show ?thesis by (intro conjI)
qed

theorem get_projects_empty_keyword_witness:
  "top_level_dirs snapshot_two
     = [\<lparr>type = ''tree'', path = ''elections''\<rparr>, \<lparr>type = ''tree'', path = ''polls''\<rparr>]
   \<and> snd (get_projects offline echo (Some []) (Some snapshot_two)) = Inr [elections_row, polls_row]
   \<and> map Name [elections_row, polls_row] = map path (top_level_dirs snapshot_two)"
proof -
  note t = get_projects_empty_keyword [of offline echo "Some snapshot_two" snapshot_two]
  have a: "top_level_dirs snapshot_two
     = [\<lparr>type = ''tree'', path = ''elections''\<rparr>, \<lparr>type = ''tree'', path = ''polls''\<rparr>]"
    by (simp add: snapshot_two_def top_level_dirs_def string_eval)
  from t have "get_projects offline echo (Some []) (Some snapshot_two)
                 = get_projects offline echo None (Some snapshot_two)"
    by (rule conjunct1)
  with snapshot_two_all
  have b: "snd (get_projects offline echo (Some []) (Some snapshot_two)) = Inr [elections_row, polls_row]"
    by simp
  from t have "\<forall>rs. snd (get_projects offline echo (Some []) (Some snapshot_two)) = Inr rs
          \<longrightarrow> map Name rs = map path (top_level_dirs snapshot_two)"
    by (elim conjE)
  with b have c: "map Name [elections_row, polls_row] = map path (top_level_dirs snapshot_two)"
    by (elim allE [of _ "[elections_row, polls_row]"] impE)
  from a b c show ?thesis by (intro conjI)
qed

text \<open>
  C4: for a non-empty keyword \<open>k\<close>, every row \<open>get_projects\<close> returns has a name
  that contains \<open>k\<close>; and whenever the call without a keyword returns, the call
  with \<open>k\<close> returns too, and its names are among those of the call without.
\<close>

theorem get_projects_keyword:
  assumes "k \<noteq> []"
  shows "(\<forall>rs. snd (get_projects fetch_tree http_get (Some k) gittree) = Inr rs
            \<longrightarrow> (\<forall>r \<in> set rs. \<exists>ps ss. Name r = ps @ k @ ss))
       \<and> (\<forall>rs'. snd (get_projects fetch_tree http_get None gittree) = Inr rs'
            \<longrightarrow> (\<exists>rs. snd (get_projects fetch_tree http_get (Some k) gittree) = Inr rs
                      \<and> Name ` set rs \<subseteq> Name ` set rs'))"
proof (cases "case gittree of None \<Rightarrow> fetch_tree | Some gt \<Rightarrow> Inr gt")
  case (Inl e)
  then show ?thesis by (simp add: get_projects_def)
next
  case (Inr gt)
  let ?loop = "\<lambda>s. snd (project_loop http_get gt (project_list s gt) [] [])"
  have gp: "snd (get_projects fetch_tree http_get s gittree) = ?loop s" for s
    using Inr by (simp add: get_projects_def)
  have A: "\<exists>ps ss. Name r = ps @ k @ ss" if "?loop (Some k) = Inr rs" and "r \<in> set rs" for rs r
  proof -
    from that(1) have "map Name rs = map path (project_list (Some k) gt)"
      using project_loop_names by fastforce
    then have "Name ` set rs = path ` set (project_list (Some k) gt)"
      by (metis set_map)
    with that(2) obtain x where "x \<in> set (project_list (Some k) gt)" and "Name r = path x"
      by blast
    with project_list_Some_names show ?thesis by metis
  qed
  have B: "\<exists>rs. ?loop (Some k) = Inr rs \<and> Name ` set rs \<subseteq> Name ` set rs'"
    if "?loop None = Inr rs'" for rs'
  proof -
    from project_loop_filter [OF that, of "\<lambda>x. py_find (path x) k \<ge> 0" "[]" "[]"]
    obtain rs where rs: "?loop (Some k) = Inr rs"
      by (auto simp: project_list_Some_filter)
    from rs have "map Name rs = map path (project_list (Some k) gt)"
      using project_loop_names by fastforce
    then have 1: "Name ` set rs = path ` set (project_list (Some k) gt)"
      by (metis set_map)
    from that have "map Name rs' = map path (project_list None gt)"
      using project_loop_names by fastforce
    then have 2: "Name ` set rs' = path ` set (project_list None gt)"
      by (metis set_map)
    have "set (project_list (Some k) gt) \<subseteq> set (project_list None gt)"
      by (auto simp: project_list_Some_filter)
    with 1 2 rs show ?thesis by blast
  qed
  from A B show ?thesis unfolding gp by blast
qed

theorem get_projects_keyword_witness:
  "''oll'' \<noteq> []
   \<and> snd (get_projects offline echo (Some ''oll'') (Some snapshot_two)) = Inr [polls_row]
   \<and> (\<exists>ps ss. Name polls_row = ps @ ''oll'' @ ss)
   \<and> snd (get_projects offline echo None (Some snapshot_two)) = Inr [elections_row, polls_row]
   \<and> (\<exists>rs. snd (get_projects offline echo (Some ''oll'') (Some snapshot_two)) = Inr rs
          \<and> Name ` set rs \<subseteq> Name ` set [elections_row, polls_row])"
proof -
  have k: "''oll'' \<noteq> []" by simp
  note t = get_projects_keyword [OF k, of offline echo "Some snapshot_two"]
  from t have t1: "snd (get_projects offline echo (Some ''oll'') (Some snapshot_two)) = Inr rs
            \<Longrightarrow> r \<in> set rs \<Longrightarrow> \<exists>ps ss. Name r = ps @ ''oll'' @ ss" for rs r
    by blast
  from t have t2: "snd (get_projects offline echo None (Some snapshot_two)) = Inr rs'
            \<Longrightarrow> \<exists>rs. snd (get_projects offline echo (Some ''oll'') (Some snapshot_two)) = Inr rs
                      \<and> Name ` set rs \<subseteq> Name ` set rs'" for rs'
    by blast
  from k snapshot_two_keyword t1 [OF snapshot_two_keyword list.set_intros(1)]
    snapshot_two_all t2 [OF snapshot_two_all]
  show ?thesis by (intro conjI)
qed

text \<open>
  C10: when no top-level directory of the snapshot has the keyword in its path,
  \<open>get_projects\<close> returns the empty frame and has requested no documentation
  file, whatever the network would have answered.
\<close>

theorem get_projects_no_match:
  assumes "\<forall>x \<in> set (tree gt). type x = ''tree'' \<and> CHR ''/'' \<notin> set (path x)
             \<longrightarrow> \<not> (\<exists>ps ss. path x = ps @ k @ ss)"
  shows "get_projects fetch_tree http_get (Some k) (Some gt) = ([], Inr [])"
proof -
  from assms have "project_list (Some k) gt = []"
    by (auto simp: project_list_def top_level_dirs_def py_find_contains py_find_slash
        filter_empty_conv)
  then show ?thesis by (simp add: get_projects_def)
qed

theorem get_projects_no_match_witness:
  "get_projects offline (\<lambda>u. Inl (RequestException u)) (Some ''nba'') (Some snapshot_two) = ([], Inr [])"
proof -
  have h: "\<forall>x \<in> set (tree snapshot_two). type x = ''tree'' \<and> CHR ''/'' \<notin> set (path x)
             \<longrightarrow> \<not> (\<exists>ps ss. path x = ps @ ''nba'' @ ss)"
    using py_find_contains [of "''elections''" "''nba''"] py_find_contains [of "''polls''" "''nba''"]
    by (simp add: snapshot_two_def string_eval)
  from get_projects_no_match [OF h] show ?thesis .
qed

section \<open>The documentation file of a project\<close>

text \<open>
  C2, at an input: a project without any documentation file makes
  \<open>get_projects\<close> raise the \<open>IndexError\<close> of indexing the empty list
  \<open>readme\<close>; the lookup is not guarded.
\<close>

theorem get_projects_missing_readme_counterexample:
  "get_projects offline echo None (Some snapshot_no_readme) = ([], Inl IndexError)"
  by (simp add: snapshot_no_readme_def project_eval string_eval)

text \<open>
  C2, as the code has it: when a kept candidate has no documentation file,
  \<open>get_projects\<close> raises and returns no rows.  The exception is that
  \<open>IndexError\<close>, or the one a documentation request has raised before the
  loop came to the candidate.
\<close>

theorem get_projects_missing_readme:
  assumes "c \<in> set (project_list search_string gt)" and "readme gt c = []"
  shows "\<exists>e. snd (get_projects fetch_tree http_get search_string (Some gt)) = Inl e
           \<and> (e = IndexError \<or> (\<exists>u. http_get u = Inl e))"
  using project_loop_raises [OF assms] by (simp add: get_projects_def)

theorem get_projects_missing_readme_witness:
  "\<lparr>type = ''tree'', path = ''elections''\<rparr> \<in> set (project_list None snapshot_no_readme)
   \<and> readme snapshot_no_readme \<lparr>type = ''tree'', path = ''elections''\<rparr> = []
   \<and> (\<exists>e. snd (get_projects offline echo None (Some snapshot_no_readme)) = Inl e
           \<and> (e = IndexError \<or> (\<exists>u. echo u = Inl e)))"
proof -
  have a: "\<lparr>type = ''tree'', path = ''elections''\<rparr> \<in> set (project_list None snapshot_no_readme)"
    by (simp add: snapshot_no_readme_def project_eval string_eval)
  have b: "readme snapshot_no_readme \<lparr>type = ''tree'', path = ''elections''\<rparr> = []"
    by (simp add: snapshot_no_readme_def project_eval string_eval)
  from a b get_projects_missing_readme [OF a b, of offline echo] show ?thesis by blast
qed

text \<open>
  C3, at an input: the documentation filter of line 49 compares with the
  project's path, not with the path followed by \<open>/\<close>, so the directory
  \<open>nfl-elo\<close> is described by the file \<open>nfl-elo-game/README.md\<close>, which precedes
  its own \<open>nfl-elo/README.md\<close> in the listing.
\<close>

theorem get_projects_prefix_clash:
  "snd (get_projects offline echo (Some ''nfl-elo'') (Some snapshot_prefix_clash))
     = Inr [\<lparr>Name = ''nfl-elo-game'',
             Description = ''https://raw.githubusercontent.com/fivethirtyeight/data/abc123/nfl-elo-game/README.md'',
             URL = ''https://www.github.com/fivethirtyeight/data/tree/abc123/nfl-elo-game''\<rparr>,
            \<lparr>Name = ''nfl-elo'',
             Description = ''https://raw.githubusercontent.com/fivethirtyeight/data/abc123/nfl-elo-game/README.md'',
             URL = ''https://www.github.com/fivethirtyeight/data/tree/abc123/nfl-elo''\<rparr>]"
  by (simp add: snapshot_prefix_clash_def echo_def project_eval string_eval)

section \<open>Loading a sub-catalog\<close>

text \<open>
  C1, at an input: for project \<open>abc\<close> and a snapshot whose only qualifying
  file is \<open>abc/data-set.csv\<close>, the single entry is named \<open>data_set.csv\<close>: the
  extension is part of the name, which is therefore not \<open>data_set\<close>.
\<close>

theorem SubCatalog_load_one_file_counterexample:
  "SubCatalog_load offline ''abc'' (Some snapshot_abc) = Inr [(''data_set.csv'', data_set_entry)]
   \<and> entry_name data_set_entry \<noteq> ''data_set''"
  by (simp add: snapshot_abc_def data_set_entry_def sub_eval string_eval replace_eval)

text \<open>
  C1, as the code has it: for project \<open>abc\<close> and every snapshot whose only
  qualifying file is at \<open>abc/data-set.csv\<close>, the loaded mapping has exactly
  one entry, its key and name are \<open>data_set.csv\<close>, and its source URL ends with
  \<open>abc/data-set.csv\<close>.
\<close>

theorem SubCatalog_load_one_file:
  assumes "output_list ''abc'' gt = [x]" and "path x = ''abc/data-set.csv''"
  shows "\<exists>e. SubCatalog_load fetch_tree ''abc'' (Some gt) = Inr [(''data_set.csv'', e)]
           \<and> entry_name e = ''data_set.csv''
           \<and> (\<exists>p. entry_urlpath e = p @ ''abc/data-set.csv'')"
proof (intro exI conjI)
  have n: "dataset_name ''abc'' x = ''data_set.csv''"
    by (simp add: dataset_name_def assms(2) replace_eval)
  show "SubCatalog_load fetch_tree ''abc'' (Some gt) = Inr [(''data_set.csv'', csv_entry ''abc'' gt x)]"
    by (simp add: SubCatalog_load_def assms(1) n)
  show "entry_name (csv_entry ''abc'' gt x) = ''data_set.csv''"
    using n by (simp add: csv_entry_def)
  show "entry_urlpath (csv_entry ''abc'' gt x)
          = (RAW_URL @ ''/'' @ REPO @ ''/'' @ sha gt @ ''/'') @ ''abc/data-set.csv''"
    by (simp add: csv_entry_def assms(2))
qed

theorem SubCatalog_load_one_file_witness:
  "output_list ''abc'' snapshot_abc = [\<lparr>type = ''blob'', path = ''abc/data-set.csv''\<rparr>]
   \<and> (\<exists>e. SubCatalog_load offline ''abc'' (Some snapshot_abc) = Inr [(''data_set.csv'', e)]
           \<and> entry_name e = ''data_set.csv''
           \<and> (\<exists>p. entry_urlpath e = p @ ''abc/data-set.csv''))"
proof -
  have a: "output_list ''abc'' snapshot_abc = [\<lparr>type = ''blob'', path = ''abc/data-set.csv''\<rparr>]"
    by (simp add: snapshot_abc_def output_list_def string_eval)
  have b: "path \<lparr>type = ''blob'', path = ''abc/data-set.csv''\<rparr> = ''abc/data-set.csv''"
    by simp
  from a SubCatalog_load_one_file [OF a b, of offline] show ?thesis by (intro conjI)
qed

text \<open>
  C6, at an input: three files qualify for project \<open>p\<close>, yet the mapping has
  two entries, because \<open>p/a-b.csv\<close> and \<open>p/a_b.csv\<close> are given the same name
  and the later one replaces the earlier; and \<open>p/p/c.csv\<close> is named \<open>c.csv\<close>,
  not \<open>p/c.csv\<close>, because every occurrence of \<open>p/\<close> is removed.
\<close>

theorem SubCatalog_load_entries_counterexample:
  "length (output_list ''p'' snapshot_collide) = 3
   \<and> SubCatalog_load offline ''p'' (Some snapshot_collide)
       = Inr [(''a_b.csv'', \<lparr>entry_name = ''a_b.csv'', entry_description = ''data file for p'',
                 entry_driver = ''csv'',
                 entry_urlpath = ''https://raw.githubusercontent.com/fivethirtyeight/data/abc123/p/a_b.csv''\<rparr>),
              (''c.csv'', \<lparr>entry_name = ''c.csv'', entry_description = ''data file for p'',
                 entry_driver = ''csv'',
                 entry_urlpath = ''https://raw.githubusercontent.com/fivethirtyeight/data/abc123/p/p/c.csv''\<rparr>)]"
  by (simp add: snapshot_collide_def sub_eval string_eval replace_eval)

text \<open>
  C6, as the code has it, for snapshots in which each qualifying file has
  \<open><project_name>/\<close> only as its leading prefix.  The mapping has one entry for
  each distinct normalised name (prefix stripped, hyphens replaced by
  underscores) of the qualifying files; an entry is named by its key, and its
  source URL is raw host, repository, commit and the full path of a qualifying
  file with that normalised name.  When the normalised names are pairwise
  distinct there is exactly one entry for each qualifying file, in snapshot
  order.  The qualifying files are those of \<open>output_list_iff\<close>.
\<close>

theorem SubCatalog_load_entries:
  assumes "\<forall>x \<in> set (output_list n gt).
             \<not> (\<exists>ps ss. drop (length n + 1) (path x) = ps @ (n @ ''/'') @ ss)"
  shows "\<exists>es. SubCatalog_load fetch_tree n (Some gt) = Inr es
     \<and> distinct (map fst es)
     \<and> fst ` set es = (\<lambda>x. stripped_name n (path x)) ` set (output_list n gt)
     \<and> (\<forall>(k, e) \<in> set es. entry_name e = k
           \<and> (\<exists>x \<in> set (output_list n gt). k = stripped_name n (path x)
                 \<and> entry_urlpath e = RAW_URL @ ''/'' @ REPO @ ''/'' @ sha gt @ ''/'' @ path x))
     \<and> (distinct (map (\<lambda>x. stripped_name n (path x)) (output_list n gt)) \<longrightarrow>
          es = map (\<lambda>x. (stripped_name n (path x),
                     \<lparr>entry_name = stripped_name n (path x),
                      entry_description = ''data file for '' @ n,
                      entry_driver = ''csv'',
                      entry_urlpath = RAW_URL @ ''/'' @ REPO @ ''/'' @ sha gt @ ''/'' @ path x\<rparr>))
                 (output_list n gt))"
proof -
  let ?ol = "output_list n gt"
  let ?es = "load_loop n gt ?ol []"
  have nm: "dataset_name n x = stripped_name n (path x)" if "x \<in> set ?ol" for x
  proof -
    from that have "startswith (path x) (n @ ''/'')" by (simp add: output_list_def)
    with assms that show ?thesis by (intro dataset_name_stripped) auto
  qed
  have 1: "SubCatalog_load fetch_tree n (Some gt) = Inr ?es"
    by (simp add: SubCatalog_load_def)
  have 2: "distinct (map fst ?es)" by (simp add: load_loop_distinct)
  have 3: "fst ` set ?es = (\<lambda>x. stripped_name n (path x)) ` set ?ol"
    using nm by (auto simp: load_loop_keys)
  have 4: "\<forall>(k, e) \<in> set ?es. entry_name e = k
           \<and> (\<exists>x \<in> set ?ol. k = stripped_name n (path x)
                 \<and> entry_urlpath e = RAW_URL @ ''/'' @ REPO @ ''/'' @ sha gt @ ''/'' @ path x)"
  proof clarify
    fix k e assume "(k, e) \<in> set ?es"
    from load_loop_mem [OF this] obtain x where x: "x \<in> set ?ol" "k = dataset_name n x"
      "e = csv_entry n gt x" by auto
    with nm [OF x(1)] show "entry_name e = k
           \<and> (\<exists>x \<in> set ?ol. k = stripped_name n (path x)
                 \<and> entry_urlpath e = RAW_URL @ ''/'' @ REPO @ ''/'' @ sha gt @ ''/'' @ path x)"
      by (auto simp: csv_entry_def)
  qed
  have 5: "?es = map (\<lambda>x. (stripped_name n (path x),
                     \<lparr>entry_name = stripped_name n (path x),
                      entry_description = ''data file for '' @ n,
                      entry_driver = ''csv'',
                      entry_urlpath = RAW_URL @ ''/'' @ REPO @ ''/'' @ sha gt @ ''/'' @ path x\<rparr>)) ?ol"
    if d: "distinct (map (\<lambda>x. stripped_name n (path x)) ?ol)"
  proof -
    have eq: "map (dataset_name n) ?ol = map (\<lambda>x. stripped_name n (path x)) ?ol"
      by (rule map_cong) (simp_all add: nm)
    have "distinct (map (dataset_name n) ?ol)" unfolding eq by (rule d)
    then have "?es = [] @ map (\<lambda>x. (dataset_name n x, csv_entry n gt x)) ?ol"
      by (intro load_loop_distinct_names) simp_all
    also have "\<dots> = map (\<lambda>x. (stripped_name n (path x),
                     \<lparr>entry_name = stripped_name n (path x),
                      entry_description = ''data file for '' @ n,
                      entry_driver = ''csv'',
                      entry_urlpath = RAW_URL @ ''/'' @ REPO @ ''/'' @ sha gt @ ''/'' @ path x\<rparr>)) ?ol"
      using nm by (simp add: csv_entry_def)
    finally show ?thesis .
  qed
  show ?thesis
  proof (intro exI [of _ ?es] conjI impI)
    show "SubCatalog_load fetch_tree n (Some gt) = Inr ?es" by (fact 1)
    show "distinct (map fst ?es)" by (fact 2)
    show "fst ` set ?es = (\<lambda>x. stripped_name n (path x)) ` set ?ol" by (fact 3)
    show "\<forall>(k, e) \<in> set ?es. entry_name e = k
           \<and> (\<exists>x \<in> set ?ol. k = stripped_name n (path x)
                 \<and> entry_urlpath e = RAW_URL @ ''/'' @ REPO @ ''/'' @ sha gt @ ''/'' @ path x)"
      by (fact 4)
  qed (rule 5)
qed

theorem SubCatalog_load_entries_witness:
  "output_list ''abc'' snapshot_csvs
     = [\<lparr>type = ''blob'', path = ''abc/data-set.csv''\<rparr>,
        \<lparr>type = ''blob'', path = ''abc/raw/More-Data.CSV''\<rparr>]
   \<and> (\<exists>es. SubCatalog_load offline ''abc'' (Some snapshot_csvs) = Inr es
          \<and> distinct (map fst es)
          \<and> fst ` set es
              = (\<lambda>x. stripped_name ''abc'' (path x)) ` set (output_list ''abc'' snapshot_csvs)
          \<and> map fst es = [''data_set.csv'', ''raw/More_Data.CSV''])"
proof -
  have ol: "output_list ''abc'' snapshot_csvs
     = [\<lparr>type = ''blob'', path = ''abc/data-set.csv''\<rparr>,
        \<lparr>type = ''blob'', path = ''abc/raw/More-Data.CSV''\<rparr>]"
    by (simp add: snapshot_csvs_def output_list_def string_eval)
  have h: "\<forall>x \<in> set (output_list ''abc'' snapshot_csvs).
             \<not> (\<exists>ps ss. drop (length ''abc'' + 1) (path x) = ps @ (''abc'' @ ''/'') @ ss)"
    unfolding ol
    using py_find_contains [of "''data-set.csv''" "''abc/''"]
      py_find_contains [of "''raw/More-Data.CSV''" "''abc/''"]
    by (simp add: string_eval)
  have d: "distinct (map (\<lambda>x. stripped_name ''abc'' (path x)) (output_list ''abc'' snapshot_csvs))"
    unfolding ol by (simp add: stripped_name_def)
  from SubCatalog_load_entries [OF h, of offline] obtain es where
    1: "SubCatalog_load offline ''abc'' (Some snapshot_csvs) = Inr es" and
    2: "distinct (map fst es)" and
    3: "fst ` set es
          = (\<lambda>x. stripped_name ''abc'' (path x)) ` set (output_list ''abc'' snapshot_csvs)" and
    5: "distinct (map (\<lambda>x. stripped_name ''abc'' (path x)) (output_list ''abc'' snapshot_csvs)) \<longrightarrow>
          es = map (\<lambda>x. (stripped_name ''abc'' (path x),
                     \<lparr>entry_name = stripped_name ''abc'' (path x),
                      entry_description = ''data file for '' @ ''abc'',
                      entry_driver = ''csv'',
                      entry_urlpath = RAW_URL @ ''/'' @ REPO @ ''/'' @ sha snapshot_csvs @ ''/'' @ path x\<rparr>))
                 (output_list ''abc'' snapshot_csvs)"
    by (elim exE conjE)
  from 5 d have "map fst es = map (\<lambda>x. stripped_name ''abc'' (path x)) (output_list ''abc'' snapshot_csvs)"
    by (simp add: comp_def)
  then have 6: "map fst es = [''data_set.csv'', ''raw/More_Data.CSV'']"
    unfolding ol by (simp add: stripped_name_def)
  from ol 1 2 3 6 show ?thesis by (intro conjI exI [of _ es])
qed


text \<open>
  C9: \<open>search\<close> on a sub-catalog leaves the receiver as it was, and its outcome
  is that of the constructor called without arguments, the same for every
  keyword, also an absent one, and for every receiver.  The construction fetches
  the snapshot: when the requests raise, \<open>search\<close> raises their exception; when
  they answer, the instance returned has no keyword of the constructor, so no
  project name, holds the snapshot fetched, and lists what \<open>_load\<close> finds for
  the name rendered for such an instance, none of which depends on the keyword.
\<close>

theorem SubCatalog_search_ignores_keyword:
  "fst (SubCatalog_search unnamed fetch_tree self text) = self
   \<and> snd (SubCatalog_search unnamed fetch_tree self text)
       = snd (SubCatalog_search unnamed fetch_tree self' text')
   \<and> snd (SubCatalog_search unnamed fetch_tree self text)
       = SubCatalog_init unnamed fetch_tree None no_kwargs
   \<and> (case fetch_tree of
         Inl e \<Rightarrow> snd (SubCatalog_search unnamed fetch_tree self text) = Inl e
       | Inr gt \<Rightarrow>
           snd (SubCatalog_search unnamed fetch_tree self text)
             = Inr \<lparr>sub_tree = Some gt, sub_kwargs = no_kwargs,
                    sub_entries = load_loop unnamed gt (output_list unnamed gt) []\<rparr>
           \<and> SubCatalog_load fetch_tree unnamed None
               = Inr (load_loop unnamed gt (output_list unnamed gt) []))"
  by (simp add: SubCatalog_search_def SubCatalog_init_def SubCatalog_load_def no_kwargs_def
      name_text_def split: sum.splits)

theorem SubCatalog_search_ignores_keyword_witness:
  "fst (SubCatalog_search ''None'' offline elections_catalog (Some ''results'')) = elections_catalog
   \<and> snd (SubCatalog_search ''None'' offline elections_catalog (Some ''results''))
       = Inl (RequestException ''offline'')
   \<and> snd (SubCatalog_search ''None'' (Inr snapshot_two) elections_catalog (Some ''results''))
       = Inr \<lparr>sub_tree = Some snapshot_two, sub_kwargs = no_kwargs, sub_entries = []\<rparr>"
proof -
  have o: "output_list ''None'' snapshot_two = []"
    by (simp add: snapshot_two_def output_list_def string_eval)
  note t = SubCatalog_search_ignores_keyword
    [of "''None''" offline elections_catalog "Some ''results''" elections_catalog None]
  note u = SubCatalog_search_ignores_keyword
    [of "''None''" "Inr snapshot_two" elections_catalog "Some ''results''" elections_catalog None]
  from t have a: "fst (SubCatalog_search ''None'' offline elections_catalog (Some ''results'')) = elections_catalog"
    by (rule conjunct1)
  from t have "case offline of
         Inl e \<Rightarrow> snd (SubCatalog_search ''None'' offline elections_catalog (Some ''results'')) = Inl e
       | Inr gt \<Rightarrow>
           snd (SubCatalog_search ''None'' offline elections_catalog (Some ''results''))
             = Inr \<lparr>sub_tree = Some gt, sub_kwargs = no_kwargs,
                    sub_entries = load_loop ''None'' gt (output_list ''None'' gt) []\<rparr>
           \<and> SubCatalog_load offline ''None'' None
               = Inr (load_loop ''None'' gt (output_list ''None'' gt) [])"
    by (elim conjE)
  then have b: "snd (SubCatalog_search ''None'' offline elections_catalog (Some ''results''))
              = Inl (RequestException ''offline'')"
    by (simp add: offline_def)
  from u have "case Inr snapshot_two of
         Inl e \<Rightarrow> snd (SubCatalog_search ''None'' (Inr snapshot_two) elections_catalog (Some ''results'')) = Inl e
       | Inr gt \<Rightarrow>
           snd (SubCatalog_search ''None'' (Inr snapshot_two) elections_catalog (Some ''results''))
             = Inr \<lparr>sub_tree = Some gt, sub_kwargs = no_kwargs,
                    sub_entries = load_loop ''None'' gt (output_list ''None'' gt) []\<rparr>
           \<and> SubCatalog_load (Inr snapshot_two) ''None'' None
               = Inr (load_loop ''None'' gt (output_list ''None'' gt) [])"
    by (elim conjE)
  then have c: "snd (SubCatalog_search ''None'' (Inr snapshot_two) elections_catalog (Some ''results''))
       = Inr \<lparr>sub_tree = Some snapshot_two, sub_kwargs = no_kwargs, sub_entries = []\<rparr>"
    by (simp add: o)
  from a b c show ?thesis by (intro conjI)
qed

section \<open>Walking a catalog\<close>



text \<open>
  C8: \<open>walk\<close> is defined by recursion on \<open>depth\<close> for every store, so for
  stores with cycles too, and it returns either the exception of the walked
  catalog's own reload or a mapping.  Every pair of the mapping that was not in
  \<open>sofar\<close> is an entry reached along a chain of at most \<open>max 1 depth\<close> names,
  through catalogs only, recorded under the dotted chain: nothing below the
  requested depth is expanded.  \<open>walk_five_levels\<close> and \<open>walk_cyclic_store\<close>
  evaluate two such walks.
\<close>

theorem walk_depth_bound:
  "(\<exists>e. walk store self sofar prefix depth = Inl e \<and> reload (store self) = Some e)
   \<or> (\<exists>out. walk store self sofar prefix depth = Inr out
        \<and> (\<forall>(k, it) \<in> set out.
              (k, it) \<in> set (case sofar of None \<Rightarrow> [] | Some d \<Rightarrow> d)
              \<or> (\<exists>names. k = join_dot ((case prefix of None \<Rightarrow> [] | Some p \<Rightarrow> p) @ names)
                    \<and> reach store (entries (store self)) names it
                    \<and> names \<noteq> [] \<and> int (length names) \<le> max 1 depth)))"
proof (cases "reload (store self)")
  case (Some e)
  then show ?thesis by simp
next
  case None
  let ?out = "walk_entries store (entries (store self)) (case sofar of None \<Rightarrow> [] | Some d \<Rightarrow> d)
                (case prefix of None \<Rightarrow> [] | Some p \<Rightarrow> p) depth"
  have 1: "walk store self sofar prefix depth = Inr ?out" using None by simp
  have 2: "\<forall>(k, it) \<in> set ?out.
              (k, it) \<in> set (case sofar of None \<Rightarrow> [] | Some d \<Rightarrow> d)
              \<or> (\<exists>names. k = join_dot ((case prefix of None \<Rightarrow> [] | Some p \<Rightarrow> p) @ names)
                    \<and> reach store (entries (store self)) names it
                    \<and> names \<noteq> [] \<and> int (length names) \<le> max 1 depth)"
    using walk_provenance(2) reach_nonempty by fast
  from 1 2 show ?thesis by blast
qed


theorem walk_depth_bound_witness:
  "walk cyclic_store 0 None None 3
     = Inr [(''again.again.again'', Item ''catalog'' (Inr 0)),
            (''again.again'', Item ''catalog'' (Inr 0)),
            (''again'', Item ''catalog'' (Inr 0))]
   \<and> (\<exists>names. ''again.again.again'' = join_dot names
         \<and> reach cyclic_store (entries (cyclic_store 0)) names (Item ''catalog'' (Inr 0))
         \<and> names \<noteq> [] \<and> int (length names) \<le> 3)"
proof -
  note w = walk_cyclic_store
  from walk_depth_bound [of cyclic_store 0 None None 3]
  have "\<forall>(k, it) \<in> set [(''again.again.again'', Item ''catalog'' (Inr 0)),
            (''again.again'', Item ''catalog'' (Inr 0)),
            (''again'', Item ''catalog'' (Inr 0))].
              (k, it) \<in> set (case None of None \<Rightarrow> [] | Some d \<Rightarrow> d)
              \<or> (\<exists>names. k = join_dot ((case None of None \<Rightarrow> [] | Some p \<Rightarrow> p) @ names)
                    \<and> reach cyclic_store (entries (cyclic_store 0)) names it
                    \<and> names \<noteq> [] \<and> int (length names) \<le> max 1 3)"
    unfolding w by simp
  then have "\<exists>names. ''again.again.again'' = join_dot names
         \<and> reach cyclic_store (entries (cyclic_store 0)) names (Item ''catalog'' (Inr 0))
         \<and> names \<noteq> [] \<and> int (length names) \<le> 3"
    by simp
  with w show ?thesis by (intro conjI)
qed

end
